theory Spec2Isabelle
  imports Main "HOL-Library.AList"
begin

section \<open>The part of Go's flag package that the resolver calls\<close>

text \<open>
  A \<open>flag.Value\<close> is an interface value: a pointer to the variable the flag is bound
  to, and the methods of its dynamic type. The variable lives in a store (a map from
  addresses to values), since \<open>Set\<close> mutates it in place and two flags may be bound to
  the same variable. \<open>v_IsBoolFlag\<close> is \<open>None\<close> when the dynamic type has no
  \<open>IsBoolFlag\<close> method. \<open>v_Set\<close> takes the text and the old contents of the cell and
  returns the error (if any) and the new contents: the conversion of the text is not
  code of this package, so it is a field of the value. A \<open>Set\<close> writes its own cell
  only.
\<close>

type_synonym addr = nat

record 'v flag_Value =
  v_cell :: addr
  v_IsBoolFlag :: "bool option"
  v_Set :: "string \<Rightarrow> 'v \<Rightarrow> string option \<times> 'v"

record 'v flag_Flag =
  Name :: string
  Value :: "'v flag_Value"

text \<open>
  A \<open>flag.FlagSet\<close>: its name and its formal flags. The flags of one set have distinct
  names (\<open>FlagSet.Var\<close> panics on a name that is already defined); \<open>Lookup\<close> is the
  map access \<open>f.formal[name]\<close>.
\<close>

record 'v FlagSet =
  fs_name :: string
  formal :: "'v flag_Flag list"

definition Lookup :: "'v FlagSet \<Rightarrow> string \<Rightarrow> 'v flag_Flag option" where
  "Lookup fs s = find (\<lambda>f. Name f = s) (formal fs)"

section \<open>Commands (command.go) and command groups (group.go)\<close>

text \<open>
  The dynamic types behind the interface \<open>Command\<close>: the package's \<open>groupCmd\<close> and
  \<open>basicCmd\<close>, and any type of the caller's (\<open>Custom\<close>, given by what its method
  \<open>Command()\<close> returns, the same at every call and with no effect of its own; the
  flag set it returns is not nil). \<open>'f\<close> is the type of the functions \<open>CmdFunc\<close>; a nil
  function is \<open>None\<close>. A nil \<open>Command\<close> in a list (\<open>NewCommand\<close> and \<open>NewGroup\<close> return nil for
  an empty name) is \<open>None\<close>. The field \<open>specialCmd\<close> of a group is only ever written on
  the root during \<open>resolve\<close>, and it is kept in the state of the scan below. A tree is
  given as a value of this type; the constructors \<open>NewCommand\<close> and \<open>NewGroup\<close> are
  not modelled (\<open>NewCommand\<close> renames the caller's flag set in place, which a flag set
  held by value cannot show).
\<close>

datatype ('v, 'f) Command =
    Group "('v, 'f) groupCmd"
  | Basic (b_cmd: "'f option") (b_fset: "'v FlagSet") (b_purpose: string)
  | Custom (c_name: string) (c_fset: "'v FlagSet") (c_fun: "'f option")
and ('v, 'f) groupCmd =
    GroupCmd (flags: "'v FlagSet") (subcmds: "('v, 'f) Command option list") (purpose: string)

fun Command_method :: "('v, 'f) Command \<Rightarrow> string \<times> 'v FlagSet \<times> 'f option" where
  "Command_method (Group gc) = (fs_name (flags gc), flags gc, None)"
| "Command_method (Basic c fs p) = (fs_name fs, fs, c)"
| "Command_method (Custom n fs fn) = (n, fs, fn)"

definition specialCmds :: "string list" where
  "specialCmds = [''help'', ''flags'', ''commands'']"

record ('v, 'f) cmdData =
  fset :: "'v FlagSet"
  func :: "'f option"
  cmd :: "('v, 'f) Command"

datatype error =
    ErrInvalid
  | CommandNotDefined string
  | BadFlagSyntax string
  | FlagNotDefined string
  | InvalidBooleanValue string string string
  | InvalidBooleanFlag string string
  | FlagNeedsArgument string
  | InvalidValue string string string

subsection \<open>The closures of resolve\<close>

text \<open>
  \<open>prepCmdDataMap\<close> fills a fresh Go map, so a later command replaces an earlier one of
  the same name; calling \<open>Command()\<close> on a nil command panics (\<open>None\<close>).
\<close>

fun prepCmdDataMap_loop ::
  "('v, 'f) Command option list \<Rightarrow> (string \<times> ('v, 'f) cmdData) list
     \<Rightarrow> (string \<times> ('v, 'f) cmdData) list option" where
  "prepCmdDataMap_loop [] m = Some m"
| "prepCmdDataMap_loop (None # cs) m = None"
| "prepCmdDataMap_loop (Some c # cs) m =
     (case Command_method c of
        (name, fs, fn) \<Rightarrow>
          prepCmdDataMap_loop cs (AList.update name \<lparr>fset = fs, func = fn, cmd = c\<rparr> m))"

definition prepCmdDataMap ::
  "('v, 'f) Command option list \<Rightarrow> (string \<times> ('v, 'f) cmdData) list option" where
  "prepCmdDataMap cmds = prepCmdDataMap_loop cmds []"

text \<open>\<open>lookup\<close> scans the path from its last entry down to the root.\<close>

fun lookup_down :: "('v, 'f) cmdData list \<Rightarrow> string \<Rightarrow> 'v flag_Flag option" where
  "lookup_down [] s = None"
| "lookup_down (c # cs) s =
     (case Lookup (fset c) s of Some f \<Rightarrow> Some f | None \<Rightarrow> lookup_down cs s)"

definition lookup :: "('v, 'f) cmdData list \<Rightarrow> string \<Rightarrow> 'v flag_Flag option" where
  "lookup cmdpath s = lookup_down (rev cmdpath) s"

subsection \<open>The state of the scan and one round of its loop\<close>

record ('v, 'f) scan =
  cmdpath :: "('v, 'f) cmdData list"
  cmdDataMap :: "(string \<times> ('v, 'f) cmdData) list"
  specialCmd :: string
  store :: "addr \<Rightarrow> 'v"

text \<open>
  How a round of the loop ends: \<open>Continue k\<close> is \<open>continue\<close> (or the end of the body)
  after \<open>k\<close> extra \<open>i++\<close>; \<open>Break k\<close> is \<open>break\<close> after \<open>k\<close> times \<open>i++\<close>; \<open>Return e\<close> is
  \<open>return nil, nil, err\<close>.
\<close>

datatype ctl = Continue nat | Break nat | Return error | Panicked

definition isBoolFlag :: "'v flag_Value \<Rightarrow> bool" where
  "isBoolFlag v = (case v_IsBoolFlag v of None \<Rightarrow> False | Some b \<Rightarrow> b)"

definition call_Set ::
  "('v, 'f) scan \<Rightarrow> 'v flag_Flag \<Rightarrow> string \<Rightarrow> string option \<times> ('v, 'f) scan" where
  "call_Set st f text =
     (case v_Set (Value f) text (store st (v_cell (Value f))) of
        (err, x) \<Rightarrow> (err, st\<lparr>store := (store st)(v_cell (Value f) := x)\<rparr>))"

definition step_subcmd :: "('v, 'f) scan \<Rightarrow> string \<Rightarrow> ctl \<times> ('v, 'f) scan" where
  "step_subcmd st s =
     (if length (cmdDataMap st) = 0 then (Break 0, st)
      else (case map_of (cmdDataMap st) s of
              None \<Rightarrow>
                if length (cmdpath st) = 1 \<and> s \<in> set specialCmds
                then (Continue 0, st\<lparr>specialCmd := s\<rparr>)
                else (Return (CommandNotDefined s), st)
            | Some subcmd \<Rightarrow>
                (case cmd subcmd of
                   Group sg \<Rightarrow>
                     (case prepCmdDataMap (subcmds sg) of
                        None \<Rightarrow> (Panicked, st\<lparr>cmdpath := cmdpath st @ [subcmd]\<rparr>)
                      | Some m \<Rightarrow>
                          (Continue 0, st\<lparr>cmdpath := cmdpath st @ [subcmd], cmdDataMap := m\<rparr>))
                 | _ \<Rightarrow>
                     (Continue 0, st\<lparr>cmdpath := cmdpath st @ [subcmd], cmdDataMap := []\<rparr>))))"

text \<open>
  The text of a flag token after its \<open>-\<close> or \<open>--\<close>, and its split at the first \<open>=\<close>
  into the name, whether a value is there, and the value.
\<close>

definition flag_body :: "string \<Rightarrow> string" where
  "flag_body s = (if s ! 1 = CHR ''-'' then drop 2 s else drop 1 s)"

definition split_flag :: "string \<Rightarrow> string \<times> bool \<times> string" where
  "split_flag body =
     (if CHR ''='' \<in> set body
      then (let pos = length (takeWhile (\<lambda>c. c \<noteq> CHR ''='') body)
            in (take pos body, True, drop (pos + 1) body))
      else (body, False, ''''))"

definition step_bool ::
  "('v, 'f) scan \<Rightarrow> 'v flag_Flag \<Rightarrow> string \<Rightarrow> bool \<Rightarrow> string \<Rightarrow> ctl \<times> ('v, 'f) scan" where
  "step_bool st f name hasValue val =
     (if hasValue
      then (case call_Set st f val of
              (Some err, st') \<Rightarrow> (Return (InvalidBooleanValue val name err), st')
            | (None, st') \<Rightarrow> (Continue 0, st'))
      else (case call_Set st f ''true'' of
              (Some err, st') \<Rightarrow> (Return (InvalidBooleanFlag name err), st')
            | (None, st') \<Rightarrow> (Continue 0, st')))"

definition step_nonbool ::
  "('v, 'f) scan \<Rightarrow> 'v flag_Flag \<Rightarrow> string \<Rightarrow> bool \<Rightarrow> string \<Rightarrow> string list
     \<Rightarrow> ctl \<times> ('v, 'f) scan" where
  "step_nonbool st f name hasValue val rest =
     (let (hasValue', val', k) =
            (if \<not> hasValue \<and> rest \<noteq> [] then (True, hd rest, 1) else (hasValue, val, 0))
      in if \<not> hasValue' then (Return (FlagNeedsArgument name), st)
         else (case call_Set st f val' of
                 (Some err, st') \<Rightarrow> (Return (InvalidValue val' name err), st')
               | (None, st') \<Rightarrow> (Continue k, st')))"

definition bad_flag_syntax :: "string \<Rightarrow> bool" where
  "bad_flag_syntax body = (length body = 0 \<or> hd body = CHR ''-'' \<or> hd body = CHR ''='')"

definition step_flag :: "('v, 'f) scan \<Rightarrow> string \<Rightarrow> string list \<Rightarrow> ctl \<times> ('v, 'f) scan" where
  "step_flag st s rest =
     (let body = flag_body s
      in if bad_flag_syntax body
         then (Return (BadFlagSyntax s), st)
         else (case split_flag body of
                 (name, hasValue, val) \<Rightarrow>
                   (case lookup (cmdpath st) name of
                      None \<Rightarrow>
                        if name = ''help'' \<or> name = ''h''
                        then (Continue 0, st\<lparr>specialCmd := ''help''\<rparr>)
                        else (Return (FlagNotDefined name), st)
                    | Some f \<Rightarrow>
                        if isBoolFlag (Value f) then step_bool st f name hasValue val
                        else step_nonbool st f name hasValue val rest)))"

text \<open>One round on the token \<open>s = args[i]\<close>, with \<open>rest\<close> the tokens after it.\<close>

definition resolve_step ::
  "('v, 'f) scan \<Rightarrow> string \<Rightarrow> string list \<Rightarrow> ctl \<times> ('v, 'f) scan" where
  "resolve_step st s rest =
     (if s = ''--'' then (Break 1, st)
      else if length s < 2 \<or> hd s \<noteq> CHR ''-'' then step_subcmd st s
      else step_flag st s rest)"

subsection \<open>The loop, resolve and run\<close>

datatype resolved = Done "string list" | Failed error | Panic

fun resolve_loop :: "('v, 'f) scan \<Rightarrow> string list \<Rightarrow> resolved \<times> ('v, 'f) scan" where
  "resolve_loop st [] = (Done [], st)"
| "resolve_loop st (s # rest) =
     (case resolve_step st s rest of
        (Continue k, st') \<Rightarrow> resolve_loop st' (drop k rest)
      | (Break k, st') \<Rightarrow> (Done (drop k (s # rest)), st')
      | (Return e, st') \<Rightarrow> (Failed e, st')
      | (Panicked, st') \<Rightarrow> (Panic, st'))"

text \<open>
  The state in which the loop starts: the path holds the root, whose flags are the
  process-wide \<open>flag.CommandLine\<close>; \<open>None\<close> when \<open>prepCmdDataMap\<close> panics.
\<close>

definition start_scan ::
  "'v FlagSet \<Rightarrow> ('v, 'f) groupCmd \<Rightarrow> (addr \<Rightarrow> 'v) \<Rightarrow> ('v, 'f) scan option" where
  "start_scan CommandLine gc sto =
     (case prepCmdDataMap (subcmds gc) of
        None \<Rightarrow> None
      | Some m \<Rightarrow>
          Some \<lparr>cmdpath = [\<lparr>fset = CommandLine, func = None, cmd = Group gc\<rparr>],
                cmdDataMap = m, specialCmd = '''', store = sto\<rparr>)"

definition resolve ::
  "'v FlagSet \<Rightarrow> ('v, 'f) groupCmd \<Rightarrow> string list \<Rightarrow> (addr \<Rightarrow> 'v)
     \<Rightarrow> resolved \<times> ('v, 'f) cmdData list \<times> string \<times> (addr \<Rightarrow> 'v)" where
  "resolve CommandLine gc args sto =
     (case start_scan CommandLine gc sto of
        None \<Rightarrow> (Panic, [], '''', sto)
      | Some st0 \<Rightarrow>
          (case resolve_loop st0 args of
             (r, st) \<Rightarrow> (r, cmdpath st, specialCmd st, store st)))"

text \<open>
  What \<open>run\<close> and \<open>Run\<close> do, besides the writes to the store: return an error of
  their own (\<open>Error\<close>), print one of the three documents for a path, call the function
  of a leaf with the residual arguments and return whatever it returns (\<open>Call\<close>: what
  the function does and returns is the caller's code and is not modelled, so \<open>Call\<close>
  says nothing about the value returned), or panic.
\<close>

datatype ('v, 'f) outcome =
    Error error
  | PrintHelp "('v, 'f) cmdData list"
  | PrintFlags "('v, 'f) cmdData list"
  | PrintCommands "('v, 'f) cmdData list"
  | Call 'f "string list"
  | Panics

definition run ::
  "'v FlagSet \<Rightarrow> ('v, 'f) groupCmd \<Rightarrow> string list \<Rightarrow> (addr \<Rightarrow> 'v)
     \<Rightarrow> ('v, 'f) outcome \<times> (addr \<Rightarrow> 'v)" where
  "run CommandLine gc args sto =
     (case resolve CommandLine gc args sto of
        (Panic, p, sp, sto') \<Rightarrow> (Panics, sto')
      | (Failed err, p, sp, sto') \<Rightarrow> (Error err, sto')
      | (Done args', p, sp, sto') \<Rightarrow>
          if sp = ''help'' then (PrintHelp p, sto')
          else if sp = ''flags'' then (PrintFlags p, sto')
          else if sp = ''commands'' then (PrintCommands p, sto')
          else (case func (last p) of
                  None \<Rightarrow> (PrintHelp p, sto')
                | Some f \<Rightarrow> (Call f args', sto')))"

text \<open>
  \<open>Run\<close> reads two process-wide variables, \<open>os.Args\<close> and \<open>flag.CommandLine\<close>.
  \<open>same_base\<close> says that \<open>args\<close> starts at the first element of \<open>os.Args\<close>
  (\<open>&args[0] == &os.Args[0]\<close>); both index expressions panic on an empty slice. A nil
  command list is \<open>None\<close>.
\<close>

record 'v process =
  os_Args :: "string list"
  flag_CommandLine :: "'v FlagSet"

definition Run ::
  "'v process \<Rightarrow> ('v, 'f) Command option list option \<Rightarrow> string list \<Rightarrow> bool
     \<Rightarrow> (addr \<Rightarrow> 'v) \<Rightarrow> ('v, 'f) outcome \<times> (addr \<Rightarrow> 'v)" where
  "Run p cmds args same_base sto =
     (case cmds of
        None \<Rightarrow> (Error ErrInvalid, sto)
      | Some cs \<Rightarrow>
          if length args = 0 then (Panics, sto)
          else if length (os_Args p) = 0 then (Panics, sto)
          else run (flag_CommandLine p) (GroupCmd (flag_CommandLine p) cs '''')
                 (if same_base then drop 1 (os_Args p) else args) sto)"

subsection \<open>The configurations a scan passes through\<close>

text \<open>
  \<open>scan_reaches st toks st' toks'\<close>: the loop started in state \<open>st\<close> on the tokens
  \<open>toks\<close> arrives at the head of a round in state \<open>st'\<close> with the tokens \<open>toks'\<close> still to
  read, every round before having ended in \<open>continue\<close>.
\<close>

fun scan_reaches ::
  "('v, 'f) scan \<Rightarrow> string list \<Rightarrow> ('v, 'f) scan \<Rightarrow> string list \<Rightarrow> bool" where
  "scan_reaches st [] st' toks' = (st' = st \<and> toks' = [])"
| "scan_reaches st (s # rest) st' toks' =
     ((st' = st \<and> toks' = s # rest) \<or>
      (case resolve_step st s rest of
         (Continue k, st1) \<Rightarrow> scan_reaches st1 (drop k rest) st' toks'
       | _ \<Rightarrow> False))"

text \<open>
  The tokens that get as far as the lookup of a flag name: not \<open>--\<close>, at least two
  characters, the first a \<open>-\<close>, and a body that passes the syntax check.
\<close>

definition flag_token :: "string \<Rightarrow> bool" where
  "flag_token s =
     (s \<noteq> ''--'' \<and> 2 \<le> length s \<and> hd s = CHR ''-'' \<and> \<not> bad_flag_syntax (flag_body s))"

subsection \<open>The rounds that assign the marker\<close>

text \<open>
  \<open>marker_assigned st s\<close> describes which rounds assign the marker, and what: a
  reserved name, when some command is defined, none has that name and the path holds
  the root only, assigns that name; a flag token named \<open>help\<close> or \<open>h\<close> that no node of
  the path declares assigns \<open>help\<close>; no other round assigns anything.
  \<open>last_assigned st toks\<close> follows the scan of \<open>toks\<close> from \<open>st\<close> and gives the
  assignment of the last round that makes one.
\<close>

definition marker_assigned :: "('v, 'f) scan \<Rightarrow> string \<Rightarrow> string option" where
  "marker_assigned st s =
     (if length (cmdDataMap st) \<noteq> 0 \<and> map_of (cmdDataMap st) s = None
         \<and> length (cmdpath st) = 1 \<and> s \<in> set specialCmds
      then Some s
      else if flag_token s \<and> fst (split_flag (flag_body s)) \<in> set [''help'', ''h'']
              \<and> lookup (cmdpath st) (fst (split_flag (flag_body s))) = None
      then Some ''help''
      else None)"

fun last_assigned :: "('v, 'f) scan \<Rightarrow> string list \<Rightarrow> string option" where
  "last_assigned st [] = None"
| "last_assigned st (s # rest) =
     (case resolve_step st s rest of
        (Continue k, st') \<Rightarrow>
          (case last_assigned st' (drop k rest) of
             Some m \<Rightarrow> Some m
           | None \<Rightarrow> marker_assigned st s)
      | _ \<Rightarrow> marker_assigned st s)"

section \<open>The usage line (getUsage)\<close>









section \<open>Concrete flag values and a concrete tree\<close>

text \<open>
  Two of the standard library's flag values, for the examples: \<open>boolValue\<close>, whose
  \<open>Set\<close> stores the result of \<open>strconv.ParseBool\<close> (false when the text does not parse,
  together with the error), and \<open>stringValue\<close>, whose \<open>Set\<close> stores the text.
\<close>

datatype gval = BoolV bool | StrV string

definition ParseBool :: "string \<Rightarrow> bool option" where
  "ParseBool s =
     (if s \<in> set [''1'', ''t'', ''T'', ''TRUE'', ''true'', ''True''] then Some True
      else if s \<in> set [''0'', ''f'', ''F'', ''FALSE'', ''false'', ''False''] then Some False
      else None)"

definition boolValue_Set :: "string \<Rightarrow> gval \<Rightarrow> string option \<times> gval" where
  "boolValue_Set s old =
     (case ParseBool s of
        Some b \<Rightarrow> (None, BoolV b)
      | None \<Rightarrow> (Some ''parse error'', BoolV False))"

definition stringValue_Set :: "string \<Rightarrow> gval \<Rightarrow> string option \<times> gval" where
  "stringValue_Set s old = (None, StrV s)"

definition boolValue :: "addr \<Rightarrow> gval flag_Value" where
  "boolValue a = \<lparr>v_cell = a, v_IsBoolFlag = Some True, v_Set = boolValue_Set\<rparr>"

definition stringValue :: "addr \<Rightarrow> gval flag_Value" where
  "stringValue a = \<lparr>v_cell = a, v_IsBoolFlag = None, v_Set = stringValue_Set\<rparr>"

text \<open>
  A value of a caller's own type, with no \<open>IsBoolFlag\<close> method: its \<open>Set\<close> stores a
  text of decimal digits and rejects any other text, leaving the variable as it is.
\<close>

definition decimalValue_Set :: "string \<Rightarrow> gval \<Rightarrow> string option \<times> gval" where
  "decimalValue_Set s old =
     (if s \<noteq> [] \<and> list_all (\<lambda>c. c \<in> set ''0123456789'') s then (None, StrV s)
      else (Some ''not a number'', old))"

definition decimalValue :: "addr \<Rightarrow> gval flag_Value" where
  "decimalValue a = \<lparr>v_cell = a, v_IsBoolFlag = None, v_Set = decimalValue_Set\<rparr>"

text \<open>
  The tree \<open>root{-x} > server{-x} > start{-port, -force} | stop{-force}\<close>, after the
  tree of subcmd\_test.go, with an \<open>x\<close> declared by the root and again by the group.
\<close>

definition ex_CommandLine :: "gval FlagSet" where
  "ex_CommandLine =
     \<lparr>fs_name = ''/usr/bin/prog'', formal = [\<lparr>Name = ''x'', Value = stringValue 0\<rparr>]\<rparr>"

definition ex_start_flags :: "gval FlagSet" where
  "ex_start_flags =
     \<lparr>fs_name = ''start'',
      formal = [\<lparr>Name = ''port'', Value = decimalValue 2\<rparr>,
                \<lparr>Name = ''force'', Value = boolValue 3\<rparr>]\<rparr>"

definition ex_start :: "(gval, string) Command" where
  "ex_start = Basic (Some ''startFunc'') ex_start_flags ''Start the server''"

definition ex_stop_flags :: "gval FlagSet" where
  "ex_stop_flags = \<lparr>fs_name = ''stop'', formal = [\<lparr>Name = ''force'', Value = boolValue 4\<rparr>]\<rparr>"

definition ex_stop :: "(gval, string) Command" where
  "ex_stop = Basic (Some ''stopFunc'') ex_stop_flags ''Stop the server''"

definition ex_server_flags :: "gval FlagSet" where
  "ex_server_flags = \<lparr>fs_name = ''server'', formal = [\<lparr>Name = ''x'', Value = stringValue 1\<rparr>]\<rparr>"

definition ex_server :: "(gval, string) groupCmd" where
  "ex_server = GroupCmd ex_server_flags [Some ex_start, Some ex_stop] ''Server operations''"

definition ex_root :: "(gval, string) groupCmd" where
  "ex_root = GroupCmd ex_CommandLine [Some (Group ex_server)] []"

definition ex_store :: "addr \<Rightarrow> gval" where
  "ex_store = (\<lambda>a. if a = 3 \<or> a = 4 then BoolV False else StrV [])"

text \<open>
  The entries of the path for the nodes of this tree, and the states of the scan at the
  start, after \<open>server\<close> and after \<open>server start\<close>.
\<close>

definition ex_root_entry :: "(gval, string) cmdData" where
  "ex_root_entry = \<lparr>fset = ex_CommandLine, func = None, cmd = Group ex_root\<rparr>"

definition ex_server_entry :: "(gval, string) cmdData" where
  "ex_server_entry = \<lparr>fset = ex_server_flags, func = None, cmd = Group ex_server\<rparr>"

definition ex_start_entry :: "(gval, string) cmdData" where
  "ex_start_entry = \<lparr>fset = ex_start_flags, func = Some ''startFunc'', cmd = ex_start\<rparr>"

definition ex_stop_entry :: "(gval, string) cmdData" where
  "ex_stop_entry = \<lparr>fset = ex_stop_flags, func = Some ''stopFunc'', cmd = ex_stop\<rparr>"

definition ex_scan0 :: "(gval, string) scan" where
  "ex_scan0 =
     \<lparr>cmdpath = [ex_root_entry], cmdDataMap = [(''server'', ex_server_entry)],
      specialCmd = [], store = ex_store\<rparr>"

definition ex_scan_server :: "(gval, string) scan" where
  "ex_scan_server =
     \<lparr>cmdpath = [ex_root_entry, ex_server_entry],
      cmdDataMap = [(''start'', ex_start_entry), (''stop'', ex_stop_entry)],
      specialCmd = [], store = ex_store\<rparr>"

definition ex_scan_start :: "(gval, string) scan" where
  "ex_scan_start =
     \<lparr>cmdpath = [ex_root_entry, ex_server_entry, ex_start_entry], cmdDataMap = [],
      specialCmd = [], store = ex_store\<rparr>"






section \<open>Properties of the scan\<close>

subsection \<open>Reaching a configuration\<close>

lemma scan_reaches_refl: "scan_reaches st toks st toks"
  by (cases toks) simp_all

lemma scan_reaches_cases:
  assumes "scan_reaches st (t # ts) st' toks'"
  obtains "st' = st" and "toks' = t # ts"
  | j st1 where "resolve_step st t ts = (Continue j, st1)"
      and "scan_reaches st1 (drop j ts) st' toks'"
  using assms by (auto split: prod.splits ctl.splits)

text \<open>The result of the loop is the result of the loop from any configuration it reaches.\<close>

lemma resolve_loop_reaches:
  "scan_reaches st toks st' toks' \<Longrightarrow> resolve_loop st toks = resolve_loop st' toks'"
proof (induction st toks rule: resolve_loop.induct)
  case (1 st)
  then show ?case by simp
next
  case (2 st t ts)
  from "2.prems" show ?case
  proof (cases rule: scan_reaches_cases)
    case 1
    then show ?thesis by simp
  next
    case (2 j st1)
    from "2.IH"[OF this(1)[symmetric] refl this(2)] this(1) show ?thesis by simp
  qed
qed

lemma scan_reaches_step:
  "scan_reaches st toks st' (s # rest) \<Longrightarrow> resolve_step st' s rest = (Continue k, st'')
     \<Longrightarrow> scan_reaches st toks st'' (drop k rest)"
proof (induction st toks rule: resolve_loop.induct)
  case (1 st)
  then show ?case by simp
next
  case (2 st t ts)
  from "2.prems"(1) show ?case
  proof (cases rule: scan_reaches_cases)
    case 1
    with "2.prems"(2) show ?thesis by (simp add: scan_reaches_refl)
  next
    case (2 j st1)
    from "2.IH"[OF this(1)[symmetric] refl this(2) "2.prems"(2)] this(1) show ?thesis by simp
  qed
qed

text \<open>The tokens still to read are a suffix of the tokens the scan started on.\<close>

lemma scan_reaches_suffix:
  "scan_reaches st toks st' toks' \<Longrightarrow> \<exists>pre. toks = pre @ toks'"
proof (induction st toks rule: resolve_loop.induct)
  case (1 st)
  then show ?case by simp
next
  case (2 st t ts)
  from "2.prems" show ?case
  proof (cases rule: scan_reaches_cases)
    case 1
    then show ?thesis by simp
  next
    case (2 j st1)
    from "2.IH"[OF this(1)[symmetric] refl this(2)]
    obtain pre where "drop j ts = pre @ toks'" by blast
    then have "t # ts = (t # take j ts @ pre) @ toks'"
      by (metis append_Cons append_assoc append_take_drop_id)
    then show ?thesis by blast
  qed
qed

text \<open>A loop that fails has reached a token whose round returned the error.\<close>

lemma resolve_loop_Failed:
  "resolve_loop st toks = (Failed e, st') \<Longrightarrow>
     \<exists>stk s rest. scan_reaches st toks stk (s # rest) \<and> resolve_step stk s rest = (Return e, st')"
proof (induction st toks rule: resolve_loop.induct)
  case (1 st)
  then show ?case by simp
next
  case (2 st t ts)
  obtain c st1 where step: "resolve_step st t ts = (c, st1)" by (cases "resolve_step st t ts")
  show ?case
  proof (cases c)
    case (Continue j)
    with step "2.prems" have "resolve_loop st1 (drop j ts) = (Failed e, st')" by simp
    from "2.IH"[OF step[symmetric] Continue this] obtain stk s rest where
      "scan_reaches st1 (drop j ts) stk (s # rest)" "resolve_step stk s rest = (Return e, st')"
      by blast
    with step Continue show ?thesis by (intro exI[of _ stk] exI[of _ s] exI[of _ rest]) simp
  next
    case (Break j)
    with step "2.prems" show ?thesis by simp
  next
    case (Return e')
    with step "2.prems" have "e' = e" "st1 = st'" by simp_all
    with step Return show ?thesis
      by (intro exI[of _ st] exI[of _ t] exI[of _ ts]) simp
  next
    case Panicked
    with step "2.prems" show ?thesis by simp
  qed
qed

text \<open>A round that returns an error at a configuration the scan reaches fails the resolution.\<close>

lemma resolve_of_Return:
  assumes "start_scan CommandLine gc sto = Some st0"
      and "scan_reaches st0 args st (s # rest)"
      and "resolve_step st s rest = (Return e, st')"
  shows "resolve CommandLine gc args sto = (Failed e, cmdpath st', specialCmd st', store st')"
proof -
  from assms(3) have "resolve_loop st (s # rest) = (Failed e, st')" by simp
  with assms(2) have "resolve_loop st0 args = (Failed e, st')"
    by (simp add: resolve_loop_reaches)
  with assms(1) show ?thesis by (simp add: resolve_def)
qed

subsection \<open>Rounds on flag tokens\<close>

lemma lookup_snoc:
  "lookup (path @ [c]) n = (case Lookup (fset c) n of Some f \<Rightarrow> Some f | None \<Rightarrow> lookup path n)"
  by (simp add: lookup_def split: option.splits)

lemma lookup_deepest:
  "j < length path \<Longrightarrow> Lookup (fset (path ! j)) n = Some fj
     \<Longrightarrow> \<forall>k. j < k \<and> k < length path \<longrightarrow> Lookup (fset (path ! k)) n = None
     \<Longrightarrow> lookup path n = Some fj"
proof (induction path rule: rev_induct)
  case Nil
  then show ?case by simp
next
  case (snoc c path)
  show ?case
  proof (cases "j = length path")
    case True
    with snoc.prems(2) show ?thesis by (simp add: lookup_snoc)
  next
    case False
    with snoc.prems(1) have j: "j < length path" by simp
    from snoc.prems(3)[rule_format, of "length path"] j
    have c: "Lookup (fset c) n = None" by simp
    from j snoc.prems(2) have a: "Lookup (fset (path ! j)) n = Some fj"
      by (simp add: nth_append)
    have b: "\<forall>k. j < k \<and> k < length path \<longrightarrow> Lookup (fset (path ! k)) n = None"
    proof (intro allI impI)
      fix k assume k: "j < k \<and> k < length path"
      with snoc.prems(3)[rule_format, of k]
      have "Lookup (fset ((path @ [c]) ! k)) n = None" by simp
      with k show "Lookup (fset (path ! k)) n = None" by (simp add: nth_append)
    qed
    from snoc.IH[OF j a b] c show ?thesis by (simp add: lookup_snoc)
  qed
qed

lemma resolve_step_found:
  assumes "flag_token s" and "split_flag (flag_body s) = (n, hv, v)"
      and "lookup (cmdpath st) n = Some f"
  shows "resolve_step st s rest =
           (if isBoolFlag (Value f) then step_bool st f n hv v else step_nonbool st f n hv v rest)"
  using assms by (simp add: flag_token_def resolve_step_def step_flag_def)

lemma resolve_step_not_found:
  assumes "flag_token s" and "split_flag (flag_body s) = (n, hv, v)"
      and "lookup (cmdpath st) n = None"
  shows "resolve_step st s rest =
           (if n = ''help'' \<or> n = ''h'' then (Continue 0, st\<lparr>specialCmd := ''help''\<rparr>)
            else (Return (FlagNotDefined n), st))"
  using assms by (simp add: flag_token_def resolve_step_def step_flag_def)

lemma step_bool_eq:
  "step_bool st f n hv v =
     (case v_Set (Value f) (if hv then v else ''true'') (store st (v_cell (Value f))) of
        (None, x) \<Rightarrow> (Continue 0, st\<lparr>store := (store st)(v_cell (Value f) := x)\<rparr>)
      | (Some err, x) \<Rightarrow>
          (Return (if hv then InvalidBooleanValue v n err else InvalidBooleanFlag n err),
           st\<lparr>store := (store st)(v_cell (Value f) := x)\<rparr>))"
  by (simp add: step_bool_def call_Set_def split: prod.splits option.splits)

lemma step_nonbool_eq:
  "step_nonbool st f n hv v rest =
     (if \<not> hv \<and> rest = [] then (Return (FlagNeedsArgument n), st)
      else (case v_Set (Value f) (if hv then v else hd rest) (store st (v_cell (Value f))) of
              (None, x) \<Rightarrow>
                (Continue (if hv then 0 else 1), st\<lparr>store := (store st)(v_cell (Value f) := x)\<rparr>)
            | (Some err, x) \<Rightarrow>
                (Return (InvalidValue (if hv then v else hd rest) n err),
                 st\<lparr>store := (store st)(v_cell (Value f) := x)\<rparr>)))"
  by (simp add: step_nonbool_def call_Set_def split: prod.splits option.splits)

lemma store_step_found:
  assumes "flag_token s" and "split_flag (flag_body s) = (n, hv, v)"
      and "lookup (cmdpath st) n = Some f"
  shows "store (snd (resolve_step st s rest)) =
           (if \<not> hv \<and> \<not> isBoolFlag (Value f) \<and> rest = [] then store st
            else (store st)(v_cell (Value f) :=
                   snd (v_Set (Value f)
                          (if hv then v else if isBoolFlag (Value f) then ''true'' else hd rest)
                          (store st (v_cell (Value f))))))"
  by (simp add: resolve_step_found[OF assms] step_bool_eq step_nonbool_eq
      split: prod.splits option.splits)

text \<open>
  The rounds on a flag of the standard library's boolean value: without a value it
  stores true; with a value that \<open>strconv.ParseBool\<close> accepts it stores that boolean;
  with any other value the round returns the error (and the variable holds false).
\<close>

lemma boolValue_round:
  assumes "flag_token s" and "split_flag (flag_body s) = (n, hv, v)"
      and "lookup (cmdpath st) n = Some f" and "Value f = boolValue a"
  shows "resolve_step st s rest =
           (case ParseBool (if hv then v else ''true'') of
              Some b \<Rightarrow> (Continue 0, st\<lparr>store := (store st)(a := BoolV b)\<rparr>)
            | None \<Rightarrow>
                (Return (InvalidBooleanValue v n ''parse error''),
                 st\<lparr>store := (store st)(a := BoolV False)\<rparr>))"
proof -
  from assms(4) have ib: "isBoolFlag (Value f)" by (simp add: isBoolFlag_def boolValue_def)
  have t: "ParseBool ''true'' = Some True" by (simp add: ParseBool_def)
  show ?thesis
  proof (cases hv)
    case True
    with ib assms(4) show ?thesis
      by (simp add: resolve_step_found[OF assms(1,2,3)] step_bool_eq boolValue_def
          boolValue_Set_def split: option.splits)
  next
    case False
    with ib assms(4) t show ?thesis
      by (simp add: resolve_step_found[OF assms(1,2,3)] step_bool_eq boolValue_def
          boolValue_Set_def)
  qed
qed

lemma ParseBool_cases:
  "ParseBool ''false'' = Some False" "ParseBool ''true'' = Some True"
  "ParseBool ''notabool'' = None" "ParseBool [] = None"
  by (simp_all add: ParseBool_def)

text \<open>A round that calls \<open>Set\<close> ends in the state with that one cell written; it continues when \<open>Set\<close> succeeds, after the value it took from the next token if it took one.\<close>

lemma resolve_step_sets:
  assumes "flag_token s" and "split_flag (flag_body s) = (n, hv, v)"
      and "lookup (cmdpath st) n = Some f"
      and "hv \<or> isBoolFlag (Value f) \<or> rest \<noteq> []"
  shows "\<exists>c. resolve_step st s rest =
               (c, st\<lparr>store := (store st)(v_cell (Value f) :=
                      snd (v_Set (Value f)
                             (if hv then v else if isBoolFlag (Value f) then ''true'' else hd rest)
                             (store st (v_cell (Value f)))))\<rparr>)
             \<and> (case fst (v_Set (Value f)
                             (if hv then v else if isBoolFlag (Value f) then ''true'' else hd rest)
                             (store st (v_cell (Value f)))) of
                   None \<Rightarrow> c = Continue (if hv \<or> isBoolFlag (Value f) then 0 else 1)
                 | Some err \<Rightarrow> (\<exists>e. c = Return e))"
proof -
  define arg where "arg = (if hv then v else if isBoolFlag (Value f) then ''true'' else hd rest)"
  obtain err x where set: "v_Set (Value f) arg (store st (v_cell (Value f))) = (err, x)"
    by (cases "v_Set (Value f) arg (store st (v_cell (Value f)))")
  have "\<exists>c. resolve_step st s rest = (c, st\<lparr>store := (store st)(v_cell (Value f) := x)\<rparr>)
             \<and> (case err of
                   None \<Rightarrow> c = Continue (if hv \<or> isBoolFlag (Value f) then 0 else 1)
                 | Some e' \<Rightarrow> (\<exists>e. c = Return e))"
  proof (cases "isBoolFlag (Value f)")
    case True
    then have a: "arg = (if hv then v else ''true'')" by (simp add: arg_def)
    from True have "resolve_step st s rest = step_bool st f n hv v"
      by (simp add: resolve_step_found[OF assms(1,2,3)])
    with set[unfolded a] True show ?thesis
      by (cases err) (simp_all add: step_bool_eq)
  next
    case False
    with assms(4) have nl: "\<not> (\<not> hv \<and> rest = [])" by blast
    from False have a: "arg = (if hv then v else hd rest)" by (simp add: arg_def)
    from False have "resolve_step st s rest = step_nonbool st f n hv v rest"
      by (simp add: resolve_step_found[OF assms(1,2,3)])
    with set[unfolded a] False nl show ?thesis
      by (cases err) (auto simp: step_nonbool_eq)
  qed
  with set show ?thesis unfolding arg_def by simp
qed

subsection \<open>The marker and the errors of a round\<close>

lemma step_subcmd_cases:
  "step_subcmd st s = (c, st') \<Longrightarrow>
     (c = Break 0 \<and> st' = st)
     \<or> (c = Continue 0 \<and> st' = st\<lparr>specialCmd := s\<rparr> \<and> s \<in> set specialCmds)
     \<or> (c = Return (CommandNotDefined s) \<and> st' = st)
     \<or> (specialCmd st' = specialCmd st \<and> store st' = store st
          \<and> (c = Panicked \<or> c = Continue 0))"
  by (auto simp: step_subcmd_def split: if_splits option.splits Command.splits)

lemma step_flag_cases:
  "step_flag st s rest = (c, st') \<Longrightarrow>
     (c = Return (BadFlagSyntax s) \<and> st' = st)
     \<or> (c = Continue 0 \<and> st' = st\<lparr>specialCmd := ''help''\<rparr>)
     \<or> (\<exists>n. c = Return (FlagNotDefined n) \<and> st' = st)
     \<or> (specialCmd st' = specialCmd st \<and> c \<noteq> Return ErrInvalid \<and> c \<noteq> Panicked)"
  by (auto simp: step_flag_def step_bool_eq step_nonbool_eq Let_def
      split: if_splits option.splits prod.splits)

lemma resolve_step_specialCmd:
  "resolve_step st s rest = (c, st') \<Longrightarrow>
     specialCmd st' = specialCmd st \<or> specialCmd st' \<in> set specialCmds"
  using step_subcmd_cases[of st s c st'] step_flag_cases[of st s rest c st']
  by (auto simp: resolve_step_def specialCmds_def split: if_splits)

lemma resolve_step_not_ErrInvalid:
  "resolve_step st s rest = (c, st') \<Longrightarrow> c \<noteq> Return ErrInvalid"
  using step_subcmd_cases[of st s c st'] step_flag_cases[of st s rest c st']
  by (auto simp: resolve_step_def split: if_splits)

lemma scan_reaches_specialCmd:
  "scan_reaches st toks st' toks' \<Longrightarrow> specialCmd st \<in> set ([] # specialCmds)
     \<Longrightarrow> specialCmd st' \<in> set ([] # specialCmds)"
proof (induction st toks rule: resolve_loop.induct)
  case (1 st)
  then show ?case by simp
next
  case (2 st t ts)
  from "2.prems"(1) show ?case
  proof (cases rule: scan_reaches_cases)
    case 1
    with "2.prems"(2) show ?thesis by simp
  next
    case (2 j st1)
    from resolve_step_specialCmd[OF this(1)] "2.prems"(2)
    have "specialCmd st1 \<in> set ([] # specialCmds)" by auto
    from "2.IH"[OF 2(1)[symmetric] refl 2(2) this] show ?thesis .
  qed
qed

lemma resolve_loop_specialCmd:
  "resolve_loop st toks = (r, st') \<Longrightarrow> specialCmd st \<in> set ([] # specialCmds)
     \<Longrightarrow> specialCmd st' \<in> set ([] # specialCmds)"
proof (induction st toks rule: resolve_loop.induct)
  case (1 st)
  then show ?case by simp
next
  case (2 st t ts)
  obtain c st1 where step: "resolve_step st t ts = (c, st1)" by (cases "resolve_step st t ts")
  from resolve_step_specialCmd[OF step] "2.prems"(2)
  have m: "specialCmd st1 \<in> set ([] # specialCmds)" by auto
  show ?case
  proof (cases c)
    case (Continue j)
    with step "2.prems"(1) have "resolve_loop st1 (drop j ts) = (r, st')" by simp
    from "2.IH"[OF step[symmetric] Continue this m] show ?thesis .
  next
    case (Break j)
    with step "2.prems"(1) m show ?thesis by simp
  next
    case (Return e)
    with step "2.prems"(1) m show ?thesis by simp
  next
    case Panicked
    with step "2.prems"(1) m show ?thesis by simp
  qed
qed

lemma start_scan_specialCmd:
  "start_scan CommandLine gc sto = Some st0 \<Longrightarrow> specialCmd st0 = []"
  by (auto simp: start_scan_def split: option.splits)

text \<open>What a round does to the marker, and the marker the loop ends with.\<close>

lemma reserved_not_flag:
  assumes "s \<in> set specialCmds"
  shows "s \<noteq> ''--'' \<and> hd s \<noteq> CHR ''-'' \<and> \<not> flag_token s"
proof -
  from assms have "s = ''help'' \<or> s = ''flags'' \<or> s = ''commands''"
    by (simp add: specialCmds_def)
  then have h: "hd s \<noteq> CHR ''-''" and d: "s \<noteq> ''--''" by auto
  from h have "\<not> flag_token s" unfolding flag_token_def by blast
  with h d show ?thesis by blast
qed

lemma step_subcmd_marker:
  "specialCmd (snd (step_subcmd st s)) =
     (if length (cmdDataMap st) \<noteq> 0 \<and> map_of (cmdDataMap st) s = None
         \<and> length (cmdpath st) = 1 \<and> s \<in> set specialCmds
      then s else specialCmd st)"
  by (simp add: step_subcmd_def split: option.splits Command.splits)

lemma step_bool_marker: "specialCmd (snd (step_bool st f n hv v)) = specialCmd st"
  by (simp add: step_bool_eq split: prod.splits option.splits)

lemma step_nonbool_marker: "specialCmd (snd (step_nonbool st f n hv v rest)) = specialCmd st"
  by (simp add: step_nonbool_eq split: prod.splits option.splits)

lemma step_flag_marker:
  assumes "\<not> bad_flag_syntax (flag_body s)"
  shows "specialCmd (snd (step_flag st s rest)) =
     (if fst (split_flag (flag_body s)) \<in> set [''help'', ''h'']
         \<and> lookup (cmdpath st) (fst (split_flag (flag_body s))) = None
      then ''help'' else specialCmd st)"
proof -
  obtain n hv v where sp: "split_flag (flag_body s) = (n, hv, v)"
    by (cases "split_flag (flag_body s)")
  show ?thesis
  proof (cases "lookup (cmdpath st) n")
    case None
    with assms sp have
      "step_flag st s rest =
         (if n = ''help'' \<or> n = ''h'' then (Continue 0, st\<lparr>specialCmd := ''help''\<rparr>)
          else (Return (FlagNotDefined n), st))"
      by (simp add: step_flag_def)
    with sp None show ?thesis by simp
  next
    case (Some f)
    with assms sp have
      "step_flag st s rest =
         (if isBoolFlag (Value f) then step_bool st f n hv v else step_nonbool st f n hv v rest)"
      by (simp add: step_flag_def)
    with sp Some show ?thesis by (simp add: step_bool_marker step_nonbool_marker)
  qed
qed

lemma step_flag_bad_marker:
  "bad_flag_syntax (flag_body s) \<Longrightarrow> specialCmd (snd (step_flag st s rest)) = specialCmd st"
  by (simp add: step_flag_def)

lemma resolve_step_marker:
  "specialCmd (snd (resolve_step st s rest)) =
     (case marker_assigned st s of Some m \<Rightarrow> m | None \<Rightarrow> specialCmd st)"
proof (cases "s = ''--''")
  case True
  then show ?thesis
    by (simp add: resolve_step_def marker_assigned_def specialCmds_def flag_token_def)
next
  case False
  show ?thesis
  proof (cases "length s < 2 \<or> hd s \<noteq> CHR ''-''")
    case True
    then have nf: "\<not> flag_token s" by (auto simp: flag_token_def)
    from True False have "resolve_step st s rest = step_subcmd st s"
      by (simp add: resolve_step_def)
    with nf show ?thesis by (simp add: step_subcmd_marker marker_assigned_def)
  next
    case flag: False
    with False have st: "resolve_step st s rest = step_flag st s rest"
      by (simp add: resolve_step_def)
    from flag have nr: "s \<notin> set specialCmds" using reserved_not_flag[of s] by auto
    show ?thesis
    proof (cases "bad_flag_syntax (flag_body s)")
      case True
      then have "\<not> flag_token s" by (simp add: flag_token_def)
      with True st nr show ?thesis by (simp add: step_flag_bad_marker marker_assigned_def)
    next
      case nb: False
      with flag False have "flag_token s" by (simp add: flag_token_def)
      with st nr show ?thesis by (simp add: step_flag_marker[OF nb] marker_assigned_def)
    qed
  qed
qed

lemma resolve_loop_last_assigned:
  "specialCmd (snd (resolve_loop st toks)) =
     (case last_assigned st toks of Some m \<Rightarrow> m | None \<Rightarrow> specialCmd st)"
proof (induction st toks rule: resolve_loop.induct)
  case (1 st)
  then show ?case by simp
next
  case (2 st s rest)
  obtain c st1 where step: "resolve_step st s rest = (c, st1)" by (cases "resolve_step st s rest")
  from resolve_step_marker[of st s rest] step
  have m: "specialCmd st1 = (case marker_assigned st s of Some m \<Rightarrow> m | None \<Rightarrow> specialCmd st)"
    by simp
  show ?case
  proof (cases c)
    case (Continue k)
    from "2.IH"[OF step[symmetric] Continue] step Continue m show ?thesis
      by (simp split: option.splits)
  next
    case (Break k)
    with step m show ?thesis by simp
  next
    case (Return e)
    with step m show ?thesis by simp
  next
    case Panicked
    with step m show ?thesis by simp
  qed
qed

subsection \<open>The words of the usage line\<close>




text \<open>A round leaves the path as it is or appends one entry, so a resolved path holds the root.\<close>

lemma resolve_step_cmdpath:
  "resolve_step st s rest = (c, st') \<Longrightarrow>
     cmdpath st' = cmdpath st \<or> (\<exists>x. cmdpath st' = cmdpath st @ [x])"
  by (auto simp: resolve_step_def step_subcmd_def step_flag_def step_bool_eq step_nonbool_eq
      Let_def split: if_splits option.splits prod.splits Command.splits)

lemma resolve_loop_cmdpath:
  "resolve_loop st toks = (r, st') \<Longrightarrow> cmdpath st \<noteq> [] \<Longrightarrow> cmdpath st' \<noteq> []"
proof (induction st toks rule: resolve_loop.induct)
  case (1 st)
  then show ?case by simp
next
  case (2 st t ts)
  obtain c st1 where step: "resolve_step st t ts = (c, st1)" by (cases "resolve_step st t ts")
  from resolve_step_cmdpath[OF step] "2.prems"(2) have m: "cmdpath st1 \<noteq> []" by auto
  show ?case
  proof (cases c)
    case (Continue j)
    with step "2.prems"(1) have "resolve_loop st1 (drop j ts) = (r, st')" by simp
    from "2.IH"[OF step[symmetric] Continue this m] show ?thesis .
  next
    case (Break j)
    with step "2.prems"(1) m show ?thesis by simp
  next
    case (Return e)
    with step "2.prems"(1) m show ?thesis by simp
  next
    case Panicked
    with step "2.prems"(1) m show ?thesis by simp
  qed
qed

lemma resolved_path_not_empty:
  assumes "resolve CommandLine gc args sto = (Done rest, path, sp, sto')"
  shows "path \<noteq> []"
proof -
  from assms obtain st0 where st0: "start_scan CommandLine gc sto = Some st0"
    by (cases "start_scan CommandLine gc sto") (simp_all add: resolve_def)
  then have ne: "cmdpath st0 \<noteq> []" by (auto simp: start_scan_def split: option.splits)
  obtain r st' where loop: "resolve_loop st0 args = (r, st')" by (cases "resolve_loop st0 args")
  from resolve_loop_cmdpath[OF loop ne] loop st0 assms show ?thesis
    by (simp add: resolve_def)
qed

subsection \<open>The scan of the concrete tree\<close>

lemma ex_fs_names [simp]:
  "fs_name ex_server_flags = ''server''" "fs_name ex_start_flags = ''start''"
  "fs_name ex_stop_flags = ''stop''"
  by (simp_all add: ex_server_flags_def ex_start_flags_def ex_stop_flags_def)

lemma ex_start_scan: "start_scan ex_CommandLine ex_root ex_store = Some ex_scan0"
  by (simp add: start_scan_def prepCmdDataMap_def ex_root_def ex_scan0_def ex_root_entry_def
      ex_server_entry_def ex_server_def)

lemma ex_step_server: "resolve_step ex_scan0 ''server'' rest = (Continue 0, ex_scan_server)"
  by (simp add: resolve_step_def step_subcmd_def ex_scan0_def ex_scan_server_def
      ex_server_entry_def ex_server_def prepCmdDataMap_def ex_start_def ex_stop_def
      ex_start_entry_def ex_stop_entry_def)

lemma ex_step_start: "resolve_step ex_scan_server ''start'' rest = (Continue 0, ex_scan_start)"
  by (simp add: resolve_step_def step_subcmd_def ex_scan_server_def ex_scan_start_def
      ex_start_entry_def ex_start_def)

lemma ex_reach_server: "scan_reaches ex_scan0 (''server'' # rest) ex_scan_server rest"
  by (simp add: ex_step_server scan_reaches_refl)

lemma ex_reach_start:
  "scan_reaches ex_scan0 (''server'' # ''start'' # rest) ex_scan_start rest"
  by (simp add: ex_step_server ex_step_start scan_reaches_refl)




lemma ex_tok_x5:
  "flag_token ''-x=5''" "split_flag (flag_body ''-x=5'') = (''x'', True, ''5'')"
  by (simp_all add: flag_token_def bad_flag_syntax_def flag_body_def split_flag_def)






lemma ex_lookup_port:
  "lookup (cmdpath (ex_scan_start\<lparr>store := sto\<rparr>)) ''port''
     = Some \<lparr>Name = ''port'', Value = decimalValue 2\<rparr>"
  by (simp add: lookup_def Lookup_def ex_scan_start_def ex_start_entry_def ex_start_flags_def)




lemma ex_scan_start_store: "ex_scan_start\<lparr>store := ex_store\<rparr> = ex_scan_start"
  by (simp add: ex_scan_start_def)

lemma ex_step_restart:
  "resolve_step ex_scan_server ''restart'' rest
     = (Return (CommandNotDefined ''restart''), ex_scan_server)"
  by (simp add: resolve_step_def step_subcmd_def ex_scan_server_def specialCmds_def)

lemma ex_resolve_restart:
  "resolve ex_CommandLine ex_root [''server'', ''restart''] ex_store
     = (Failed (CommandNotDefined ''restart''), [ex_root_entry, ex_server_entry], [], ex_store)"
  using resolve_of_Return[OF ex_start_scan ex_reach_server ex_step_restart]
  by (simp add: ex_scan_server_def)

lemma ex_step_help:
  "resolve_step ex_scan0 ''help'' rest = (Continue 0, ex_scan0\<lparr>specialCmd := ''help''\<rparr>)"
  by (simp add: resolve_step_def step_subcmd_def ex_scan0_def specialCmds_def)

lemma ex_step_flags:
  "resolve_step (ex_scan0\<lparr>specialCmd := ''help''\<rparr>) ''flags'' rest
     = (Continue 0, ex_scan0\<lparr>specialCmd := ''flags''\<rparr>)"
  by (simp add: resolve_step_def step_subcmd_def ex_scan0_def specialCmds_def)

lemma ex_reach_help:
  "scan_reaches ex_scan0 (''help'' # rest) (ex_scan0\<lparr>specialCmd := ''help''\<rparr>) rest"
  by (simp add: ex_step_help scan_reaches_refl)

lemma ex_reach_flags:
  "scan_reaches ex_scan0 (''flags'' # rest) (ex_scan0\<lparr>specialCmd := ''flags''\<rparr>) rest"
proof -
  have "resolve_step ex_scan0 ''flags'' rest = (Continue 0, ex_scan0\<lparr>specialCmd := ''flags''\<rparr>)"
    by (simp add: resolve_step_def step_subcmd_def ex_scan0_def specialCmds_def)
  then show ?thesis by (simp add: scan_reaches_refl)
qed

lemma ex_lookup_h_root: "lookup (cmdpath (ex_scan0\<lparr>specialCmd := m\<rparr>)) ''h'' = None"
  by (simp add: lookup_def Lookup_def ex_scan0_def ex_root_entry_def ex_CommandLine_def)


lemma ex_tok_port_9090:
  "flag_token ''-port=9090''" "split_flag (flag_body ''-port=9090'') = (''port'', True, ''9090'')"
  by (simp_all add: flag_token_def bad_flag_syntax_def flag_body_def split_flag_def)

lemma ex_step_port_9090:
  "resolve_step ex_scan_start ''-port=9090'' rest
     = (Continue 0, ex_scan_start\<lparr>store := ex_store(2 := StrV ''9090'')\<rparr>)"
proof -
  have nb: "\<not> isBoolFlag (Value \<lparr>Name = ''port'', Value = decimalValue 2\<rparr>)"
    by (simp add: isBoolFlag_def decimalValue_def)
  from resolve_step_found[OF ex_tok_port_9090 ex_lookup_port[of ex_store, unfolded ex_scan_start_store], of rest] nb
  have "resolve_step ex_scan_start ''-port=9090'' rest
          = step_nonbool ex_scan_start \<lparr>Name = ''port'', Value = decimalValue 2\<rparr> ''port'' True
              ''9090'' rest"
    by simp
  also have "\<dots> = (Continue 0, ex_scan_start\<lparr>store := ex_store(2 := StrV ''9090'')\<rparr>)"
    by (simp add: step_nonbool_eq decimalValue_def decimalValue_Set_def ex_scan_start_def)
  finally show ?thesis .
qed

lemma ex_step_extra:
  "resolve_step (ex_scan_start\<lparr>store := sto\<rparr>) ''extra'' rest
     = (Break 0, ex_scan_start\<lparr>store := sto\<rparr>)"
  by (simp add: resolve_step_def step_subcmd_def ex_scan_start_def)

lemma ex_step_x5_root:
  "resolve_step ex_scan0 ''-x=5'' rest
     = (Continue 0, ex_scan0\<lparr>store := ex_store(0 := StrV ''5'')\<rparr>)"
proof -
  have l: "lookup (cmdpath ex_scan0) ''x'' = Some \<lparr>Name = ''x'', Value = stringValue 0\<rparr>"
    by (simp add: lookup_def Lookup_def ex_scan0_def ex_root_entry_def ex_CommandLine_def)
  have nb: "\<not> isBoolFlag (Value \<lparr>Name = ''x'', Value = stringValue 0\<rparr>)"
    by (simp add: isBoolFlag_def stringValue_def)
  from resolve_step_found[OF ex_tok_x5 l, of rest] nb
  have "resolve_step ex_scan0 ''-x=5'' rest
          = step_nonbool ex_scan0 \<lparr>Name = ''x'', Value = stringValue 0\<rparr> ''x'' True ''5'' rest"
    by simp
  also have "\<dots> = (Continue 0, ex_scan0\<lparr>store := ex_store(0 := StrV ''5'')\<rparr>)"
    by (simp add: step_nonbool_eq stringValue_def stringValue_Set_def ex_scan0_def)
  finally show ?thesis .
qed

lemma ex_step_server_sto:
  "resolve_step (ex_scan0\<lparr>store := sto\<rparr>) ''server'' rest
     = (Continue 0, ex_scan_server\<lparr>store := sto\<rparr>)"
  by (simp add: resolve_step_def step_subcmd_def ex_scan0_def ex_scan_server_def
      ex_server_entry_def ex_server_def prepCmdDataMap_def ex_start_def ex_stop_def
      ex_start_entry_def ex_stop_entry_def)

lemma ex_step_start_sto:
  "resolve_step (ex_scan_server\<lparr>store := sto\<rparr>) ''start'' rest
     = (Continue 0, ex_scan_start\<lparr>store := sto\<rparr>)"
  by (simp add: resolve_step_def step_subcmd_def ex_scan_server_def ex_scan_start_def
      ex_start_entry_def ex_start_def)

lemma ex_marker_assigned:
  "marker_assigned ex_scan0 ''help'' = Some ''help''"
  "marker_assigned (ex_scan0\<lparr>specialCmd := ''help''\<rparr>) ''flags'' = Some ''flags''"
  "marker_assigned (ex_scan0\<lparr>specialCmd := ''help''\<rparr>) ''server'' = None"
  by (simp_all add: marker_assigned_def ex_scan0_def specialCmds_def flag_token_def)

lemma ex_last_assigned: "last_assigned ex_scan0 [''help'', ''flags''] = Some ''flags''"
  by (simp add: ex_step_help ex_step_flags ex_marker_assigned)

subsection \<open>Scenarios of the specification and cases of the tests\<close>

text \<open>
  The scenario \<open>server start -port=9090 extra\<close>: the path is root, server, start,
  the port holds 9090, and \<open>run\<close> calls the function of \<open>start\<close> with \<open>extra\<close>.
\<close>

lemma scenario_port_extra:
  "resolve ex_CommandLine ex_root [''server'', ''start'', ''-port=9090'', ''extra''] ex_store
     = (Done [''extra''], [ex_root_entry, ex_server_entry, ex_start_entry], [],
        ex_store(2 := StrV ''9090''))"
  "run ex_CommandLine ex_root [''server'', ''start'', ''-port=9090'', ''extra''] ex_store
     = (Call ''startFunc'' [''extra''], ex_store(2 := StrV ''9090''))"
proof -
  have "resolve_loop ex_scan_start [''-port=9090'', ''extra'']
          = (Done [''extra''], ex_scan_start\<lparr>store := ex_store(2 := StrV ''9090'')\<rparr>)"
    by (simp add: ex_step_port_9090 ex_step_extra)
  with resolve_loop_reaches[OF ex_reach_start[of "[''-port=9090'', ''extra'']"]]
  have "resolve_loop ex_scan0 [''server'', ''start'', ''-port=9090'', ''extra'']
          = (Done [''extra''], ex_scan_start\<lparr>store := ex_store(2 := StrV ''9090'')\<rparr>)"
    by simp
  then show r: "resolve ex_CommandLine ex_root [''server'', ''start'', ''-port=9090'', ''extra'']
      ex_store
     = (Done [''extra''], [ex_root_entry, ex_server_entry, ex_start_entry], [],
        ex_store(2 := StrV ''9090''))"
    by (simp add: resolve_def ex_start_scan ex_scan_start_def)
  show "run ex_CommandLine ex_root [''server'', ''start'', ''-port=9090'', ''extra''] ex_store
     = (Call ''startFunc'' [''extra''], ex_store(2 := StrV ''9090''))"
    by (simp add: run_def r ex_start_entry_def)
qed

text \<open>
  The scenario \<open>help\<close> at top level prints the help of the root; a group that is given
  no subcommand prints its own help.
\<close>

lemma scenario_help:
  "run ex_CommandLine ex_root [''help''] ex_store = (PrintHelp [ex_root_entry], ex_store)"
proof -
  have "resolve_loop ex_scan0 [''help''] = (Done [], ex_scan0\<lparr>specialCmd := ''help''\<rparr>)"
    by (simp add: ex_step_help)
  then have "resolve ex_CommandLine ex_root [''help''] ex_store
               = (Done [], [ex_root_entry], ''help'', ex_store)"
    by (simp add: resolve_def ex_start_scan ex_scan0_def)
  then show ?thesis by (simp add: run_def)
qed

lemma scenario_group_alone:
  "run ex_CommandLine ex_root [''server''] ex_store
     = (PrintHelp [ex_root_entry, ex_server_entry], ex_store)"
proof -
  have "resolve_loop ex_scan0 [''server''] = (Done [], ex_scan_server)"
    by (simp add: ex_step_server)
  then have "resolve ex_CommandLine ex_root [''server''] ex_store
               = (Done [], [ex_root_entry, ex_server_entry], [], ex_store)"
    by (simp add: resolve_def ex_start_scan ex_scan_server_def)
  then show ?thesis by (simp add: run_def ex_server_entry_def)
qed

text \<open>
  Two cases of subcmd\_test.go, run through \<open>Run\<close>: an undefined subcommand, and a
  leaf with one argument.
\<close>

lemma subcmd_test_invalid_subcommand:
  "Run \<lparr>os_Args = [''cli.test''], flag_CommandLine = ex_CommandLine\<rparr>
       (Some [Some (Group ex_server)]) [''server'', ''restart''] False ex_store
     = (Error (CommandNotDefined ''restart''), ex_store)"
  using ex_resolve_restart by (simp add: Run_def run_def ex_root_def)

lemma subcmd_test_start_arg1:
  "Run \<lparr>os_Args = [''cli.test''], flag_CommandLine = ex_CommandLine\<rparr>
       (Some [Some (Group ex_server)]) [''server'', ''start'', ''arg1''] False ex_store
     = (Call ''startFunc'' [''arg1''], ex_store)"
proof -
  have "resolve_step ex_scan_start ''arg1'' [] = (Break 0, ex_scan_start)"
    by (simp add: resolve_step_def step_subcmd_def ex_scan_start_def)
  then have "resolve_loop ex_scan_start [''arg1''] = (Done [''arg1''], ex_scan_start)"
    by simp
  with resolve_loop_reaches[OF ex_reach_start[of "[''arg1'']"]]
  have "resolve_loop ex_scan0 [''server'', ''start'', ''arg1''] = (Done [''arg1''], ex_scan_start)"
    by simp
  then have "resolve ex_CommandLine ex_root [''server'', ''start'', ''arg1''] ex_store
     = (Done [''arg1''], [ex_root_entry, ex_server_entry, ex_start_entry], [], ex_store)"
    by (simp add: resolve_def ex_start_scan ex_scan_start_def)
  then have "run ex_CommandLine ex_root [''server'', ''start'', ''arg1''] ex_store
     = (Call ''startFunc'' [''arg1''], ex_store)"
    by (simp add: run_def ex_start_entry_def)
  then show ?thesis by (simp add: Run_def ex_root_def)
qed

section \<open>The claims\<close>

subsection \<open>C1: a flag token sets the deepest declaration on the path it is scanned on\<close>

text \<open>
  Claim C1 speaks of every flag name that two nodes of the resolved path declare, and
  of any token that sets it. The lookup sees the path as it stands when the token is
  scanned: in \<open>-x=5 server start\<close> the path holds the root alone at the token, so the
  root's \<open>x\<close> is written and the \<open>x\<close> of \<open>server\<close>, the deepest declaration on the
  resolved path, keeps its value.
\<close>

theorem flag_before_entry_counterexample:
  "resolve ex_CommandLine ex_root [''-x=5'', ''server'', ''start''] ex_store
     = (Done [], [ex_root_entry, ex_server_entry, ex_start_entry], [],
        ex_store(0 := StrV ''5''))
   \<and> Lookup (fset ex_root_entry) ''x'' = Some \<lparr>Name = ''x'', Value = stringValue 0\<rparr>
   \<and> Lookup (fset ex_server_entry) ''x'' = Some \<lparr>Name = ''x'', Value = stringValue 1\<rparr>
   \<and> Lookup (fset ex_start_entry) ''x'' = None
   \<and> (ex_store(0 := StrV ''5'')) 1 = ex_store 1
   \<and> (ex_store(0 := StrV ''5'')) 1 \<noteq> StrV ''5''
   \<and> (ex_store(0 := StrV ''5'')) 0 \<noteq> ex_store 0"
proof -
  have "resolve_loop ex_scan0 [''-x=5'', ''server'', ''start'']
          = (Done [], ex_scan_start\<lparr>store := ex_store(0 := StrV ''5'')\<rparr>)"
    by (simp add: ex_step_x5_root ex_step_server_sto ex_step_start_sto)
  then have a: "resolve ex_CommandLine ex_root [''-x=5'', ''server'', ''start''] ex_store
     = (Done [], [ex_root_entry, ex_server_entry, ex_start_entry], [],
        ex_store(0 := StrV ''5''))"
    by (simp add: resolve_def ex_start_scan ex_scan_start_def)
  have b: "Lookup (fset ex_root_entry) ''x'' = Some \<lparr>Name = ''x'', Value = stringValue 0\<rparr>"
    "Lookup (fset ex_server_entry) ''x'' = Some \<lparr>Name = ''x'', Value = stringValue 1\<rparr>"
    "Lookup (fset ex_start_entry) ''x'' = None"
    by (simp_all add: Lookup_def ex_root_entry_def ex_CommandLine_def ex_server_entry_def
        ex_server_flags_def ex_start_entry_def ex_start_flags_def)
  have c: "(ex_store(0 := StrV ''5'')) 1 = ex_store 1"
    "(ex_store(0 := StrV ''5'')) 1 \<noteq> StrV ''5''"
    "(ex_store(0 := StrV ''5'')) 0 \<noteq> ex_store 0"
    by (simp_all add: ex_store_def)
  from a b c show ?thesis by blast
qed

text \<open>
  Claim C1, as amended. When the scan reaches a flag token whose name \<open>n\<close> is declared
  by two nodes of the path as it stands at that token (at \<open>i < j\<close>, with no declaration
  deeper than \<open>j\<close>; nodes that join the path later do not count), the lookup finds the
  flag of the deeper node \<open>j\<close>, and the round writes the cell of that flag and no
  other: with the text after \<open>=\<close> if the token has one, else with \<open>true\<close> for a
  boolean flag, else with the next token. The value of the shallower declaration is
  unchanged (two flags bound to one and the same variable have one value, so the cells
  are told apart). Resolution goes on from the state so written: \<open>resolve\<close> returns what
  the loop returns from there on the tokens that are left, and when none is left it
  returns the path and the marker of the token with the written store. It fails,
  writing nothing, when a non-boolean flag has no value at all, and fails with the
  written store when \<open>Set\<close> reports an error.
\<close>

theorem deepest_declaration_is_set:
  assumes "start_scan CommandLine gc sto = Some st0"
      and "scan_reaches st0 args st (s # rest)"
      and "flag_token s"
      and "split_flag (flag_body s) = (n, hv, v)"
      and "i < j" and "j < length (cmdpath st)"
      and "Lookup (fset (cmdpath st ! i)) n = Some fi"
      and "Lookup (fset (cmdpath st ! j)) n = Some fj"
      and "\<forall>k. j < k \<and> k < length (cmdpath st) \<longrightarrow> Lookup (fset (cmdpath st ! k)) n = None"
  shows "lookup (cmdpath st) n = Some fj
         \<and> store (snd (resolve_step st s rest)) =
             (if \<not> hv \<and> \<not> isBoolFlag (Value fj) \<and> rest = [] then store st
              else (store st)(v_cell (Value fj) :=
                     snd (v_Set (Value fj)
                            (if hv then v else if isBoolFlag (Value fj) then ''true'' else hd rest)
                            (store st (v_cell (Value fj))))))
         \<and> (v_cell (Value fi) \<noteq> v_cell (Value fj) \<longrightarrow>
              store (snd (resolve_step st s rest)) (v_cell (Value fi))
                = store st (v_cell (Value fi)))
         \<and> (let arg = (if hv then v else if isBoolFlag (Value fj) then ''true'' else hd rest);
                 written = (store st)(v_cell (Value fj) :=
                              snd (v_Set (Value fj) arg (store st (v_cell (Value fj)))));
                 k = (if hv \<or> isBoolFlag (Value fj) then 0 else 1)
             in if \<not> hv \<and> \<not> isBoolFlag (Value fj) \<and> rest = []
                then resolve CommandLine gc args sto
                       = (Failed (FlagNeedsArgument n), cmdpath st, specialCmd st, store st)
                else (case fst (v_Set (Value fj) arg (store st (v_cell (Value fj)))) of
                        Some err \<Rightarrow>
                          (\<exists>e. resolve CommandLine gc args sto
                                  = (Failed e, cmdpath st, specialCmd st, written))
                      | None \<Rightarrow>
                          scan_reaches st0 args (st\<lparr>store := written\<rparr>) (drop k rest)
                          \<and> resolve CommandLine gc args sto
                              = (case resolve_loop (st\<lparr>store := written\<rparr>) (drop k rest) of
                                   (r, stf) \<Rightarrow> (r, cmdpath stf, specialCmd stf, store stf))
                          \<and> (drop k rest = [] \<longrightarrow>
                               resolve CommandLine gc args sto
                                 = (Done [], cmdpath st, specialCmd st, written))))"
proof -
  have l: "lookup (cmdpath st) n = Some fj"
    using assms(6,8,9) by (rule lookup_deepest)
  note step = store_step_found[OF assms(3,4) l, of rest]
  define arg where "arg = (if hv then v else if isBoolFlag (Value fj) then ''true'' else hd rest)"
  define written where
    "written = (store st)(v_cell (Value fj) :=
                  snd (v_Set (Value fj) arg (store st (v_cell (Value fj)))))"
  define k :: nat where "k = (if hv \<or> isBoolFlag (Value fj) then 0 else 1)"
  have e2e:
    "if \<not> hv \<and> \<not> isBoolFlag (Value fj) \<and> rest = []
     then resolve CommandLine gc args sto
            = (Failed (FlagNeedsArgument n), cmdpath st, specialCmd st, store st)
     else (case fst (v_Set (Value fj) arg (store st (v_cell (Value fj)))) of
             Some err \<Rightarrow>
               (\<exists>e. resolve CommandLine gc args sto
                       = (Failed e, cmdpath st, specialCmd st, written))
           | None \<Rightarrow>
               scan_reaches st0 args (st\<lparr>store := written\<rparr>) (drop k rest)
               \<and> resolve CommandLine gc args sto
                   = (case resolve_loop (st\<lparr>store := written\<rparr>) (drop k rest) of
                        (r, stf) \<Rightarrow> (r, cmdpath stf, specialCmd stf, store stf))
               \<and> (drop k rest = [] \<longrightarrow>
                    resolve CommandLine gc args sto
                      = (Done [], cmdpath st, specialCmd st, written)))"
  proof (cases "\<not> hv \<and> \<not> isBoolFlag (Value fj) \<and> rest = []")
    case True
    then have "resolve_step st s rest = (Return (FlagNeedsArgument n), st)"
      by (simp add: resolve_step_found[OF assms(3,4) l] step_nonbool_eq)
    from resolve_of_Return[OF assms(1,2) this] True show ?thesis by simp
  next
    case False
    then have c: "hv \<or> isBoolFlag (Value fj) \<or> rest \<noteq> []" by blast
    from resolve_step_sets[OF assms(3,4) l c] obtain c where
      st: "resolve_step st s rest = (c, st\<lparr>store := written\<rparr>)"
      and c: "case fst (v_Set (Value fj) arg (store st (v_cell (Value fj)))) of
                None \<Rightarrow> c = Continue k | Some err \<Rightarrow> (\<exists>e. c = Return e)"
      unfolding arg_def written_def k_def by blast
    show ?thesis
    proof (cases "fst (v_Set (Value fj) arg (store st (v_cell (Value fj))))")
      case None
      with c st have cont: "resolve_step st s rest = (Continue k, st\<lparr>store := written\<rparr>)"
        by simp
      from scan_reaches_step[OF assms(2) cont]
      have r: "scan_reaches st0 args (st\<lparr>store := written\<rparr>) (drop k rest)" .
      from resolve_loop_reaches[OF r] assms(1)
      have res: "resolve CommandLine gc args sto
                   = (case resolve_loop (st\<lparr>store := written\<rparr>) (drop k rest) of
                        (r, stf) \<Rightarrow> (r, cmdpath stf, specialCmd stf, store stf))"
        by (simp add: resolve_def)
      then have "drop k rest = [] \<longrightarrow>
                   resolve CommandLine gc args sto
                     = (Done [], cmdpath st, specialCmd st, written)"
        by simp
      with r res None False show ?thesis by auto
    next
      case (Some err)
      with c obtain e where "c = Return e" by auto
      with st have "resolve_step st s rest = (Return e, st\<lparr>store := written\<rparr>)" by simp
      from resolve_of_Return[OF assms(1,2) this]
      have "\<exists>e. resolve CommandLine gc args sto
                   = (Failed e, cmdpath st, specialCmd st, written)"
        by simp
      with Some False show ?thesis by auto
    qed
  qed
  from l step e2e show ?thesis
    unfolding arg_def written_def k_def Let_def by simp
qed

theorem deepest_declaration_is_set_witness:
  "start_scan ex_CommandLine ex_root ex_store = Some ex_scan0
   \<and> scan_reaches ex_scan0 [''server'', ''start'', ''-x=5''] ex_scan_start [''-x=5'']
   \<and> flag_token ''-x=5'' \<and> split_flag (flag_body ''-x=5'') = (''x'', True, ''5'')
   \<and> Lookup (fset (cmdpath ex_scan_start ! 0)) ''x'' = Some \<lparr>Name = ''x'', Value = stringValue 0\<rparr>
   \<and> Lookup (fset (cmdpath ex_scan_start ! 1)) ''x'' = Some \<lparr>Name = ''x'', Value = stringValue 1\<rparr>
   \<and> Lookup (fset (cmdpath ex_scan_start ! 2)) ''x'' = None
   \<and> lookup (cmdpath ex_scan_start) ''x'' = Some \<lparr>Name = ''x'', Value = stringValue 1\<rparr>
   \<and> store (snd (resolve_step ex_scan_start ''-x=5'' [])) = ex_store(1 := StrV ''5'')
   \<and> store (snd (resolve_step ex_scan_start ''-x=5'' [])) 0 = ex_store 0
   \<and> resolve ex_CommandLine ex_root [''server'', ''start'', ''-x=5''] ex_store
       = (Done [], [ex_root_entry, ex_server_entry, ex_start_entry], [],
          ex_store(1 := StrV ''5''))
   \<and> (ex_store(1 := StrV ''5'')) 0 = ex_store 0"
proof -
  note r = ex_reach_start[of "[''-x=5'']"]
  have l0: "Lookup (fset (cmdpath ex_scan_start ! 0)) ''x''
              = Some \<lparr>Name = ''x'', Value = stringValue 0\<rparr>"
    by (simp add: ex_scan_start_def ex_root_entry_def ex_CommandLine_def Lookup_def)
  have l1: "Lookup (fset (cmdpath ex_scan_start ! 1)) ''x''
              = Some \<lparr>Name = ''x'', Value = stringValue 1\<rparr>"
    by (simp add: ex_scan_start_def ex_server_entry_def ex_server_flags_def Lookup_def)
  have l2: "Lookup (fset (cmdpath ex_scan_start ! 2)) ''x'' = None"
    by (simp add: ex_scan_start_def ex_start_entry_def ex_start_flags_def Lookup_def)
  have deep: "\<forall>k. 1 < k \<and> k < length (cmdpath ex_scan_start)
                \<longrightarrow> Lookup (fset (cmdpath ex_scan_start ! k)) ''x'' = None"
  proof (intro allI impI)
    fix k assume "1 < k \<and> k < length (cmdpath ex_scan_start)"
    then have "k = 2" by (simp add: ex_scan_start_def)
    with l2 show "Lookup (fset (cmdpath ex_scan_start ! k)) ''x'' = None" by simp
  qed
  have len: "(0::nat) < 1" "1 < length (cmdpath ex_scan_start)"
    by (simp_all add: ex_scan_start_def)
  note inst = deepest_declaration_is_set[OF ex_start_scan r ex_tok_x5 len l0 l1 deep]
  from inst have a: "lookup (cmdpath ex_scan_start) ''x'' = Some \<lparr>Name = ''x'', Value = stringValue 1\<rparr>"
    by simp
  from inst have b: "store (snd (resolve_step ex_scan_start ''-x=5'' [])) = ex_store(1 := StrV ''5'')"
    by (simp add: stringValue_def stringValue_Set_def ex_scan_start_def)
  from inst have c: "store (snd (resolve_step ex_scan_start ''-x=5'' [])) 0 = ex_store 0"
    by (simp add: stringValue_def ex_scan_start_def)
  from inst have "resolve ex_CommandLine ex_root [''server'', ''start'', ''-x=5''] ex_store
       = (Done [], cmdpath ex_scan_start, specialCmd ex_scan_start,
          (store ex_scan_start)(1 := StrV ''5''))"
    by (simp add: Let_def stringValue_def stringValue_Set_def del: scan_reaches.simps)
  then have d: "resolve ex_CommandLine ex_root [''server'', ''start'', ''-x=5''] ex_store
       = (Done [], [ex_root_entry, ex_server_entry, ex_start_entry], [],
          ex_store(1 := StrV ''5''))"
    by (simp add: ex_scan_start_def)
  have e: "(ex_store(1 := StrV ''5'')) 0 = ex_store 0" by simp
  from ex_start_scan r ex_tok_x5 l0 l1 l2 a b c d e show ?thesis by blast
qed

subsection \<open>C2: a literal -- ends the scan\<close>

text \<open>
  Claim C2. When the scan of a token list reaches a literal \<open>--\<close> (no round before it
  has failed or stopped the scan), resolution ends there: the residual arguments are
  exactly the tokens after that \<open>--\<close>, in order, and the path, the marker and the store
  are those the scan had on reaching it, so no token after the \<open>--\<close> is read as a flag
  or as a subcommand.
\<close>

theorem dashdash_ends_scan:
  assumes "start_scan CommandLine gc sto = Some st0"
      and "scan_reaches st0 args st (''--'' # rest)"
  shows "resolve CommandLine gc args sto = (Done rest, cmdpath st, specialCmd st, store st)
         \<and> (\<exists>pre. args = pre @ ''--'' # rest)"
proof -
  have "resolve_step st ''--'' rest = (Break 1, st)"
    by (simp add: resolve_step_def)
  then have "resolve_loop st (''--'' # rest) = (Done rest, st)" by simp
  with assms(2) have "resolve_loop st0 args = (Done rest, st)"
    by (simp add: resolve_loop_reaches)
  with assms(1) have
    "resolve CommandLine gc args sto = (Done rest, cmdpath st, specialCmd st, store st)"
    by (simp add: resolve_def)
  with scan_reaches_suffix[OF assms(2)] show ?thesis by simp
qed

theorem dashdash_ends_scan_witness:
  "start_scan ex_CommandLine ex_root ex_store = Some ex_scan0
   \<and> scan_reaches ex_scan0 [''server'', ''--'', ''-x'', ''start''] ex_scan_server
       [''--'', ''-x'', ''start'']
   \<and> resolve ex_CommandLine ex_root [''server'', ''--'', ''-x'', ''start''] ex_store
       = (Done [''-x'', ''start''], [ex_root_entry, ex_server_entry], [], ex_store)"
proof -
  note r = ex_reach_server[of "[''--'', ''-x'', ''start'']"]
  from dashdash_ends_scan[OF ex_start_scan r] ex_start_scan r show ?thesis
    by (simp add: ex_scan_server_def)
qed

subsection \<open>C3: the flags -help and -h\<close>




subsection \<open>C4: the marker can be assigned more than once\<close>

text \<open>
  Claim C4 says that the marker is assigned at most once in a pass. On the tokens
  \<open>help flags\<close> the scan starts with the empty marker, holds \<open>help\<close> when it reaches the
  second token, and ends with \<open>flags\<close>.
\<close>

theorem marker_set_twice_counterexample:
  "start_scan ex_CommandLine ex_root ex_store = Some ex_scan0
   \<and> specialCmd ex_scan0 = []
   \<and> scan_reaches ex_scan0 [''help'', ''flags''] (ex_scan0\<lparr>specialCmd := ''help''\<rparr>) [''flags'']
   \<and> resolve ex_CommandLine ex_root [''help'', ''flags''] ex_store
       = (Done [], [ex_root_entry], ''flags'', ex_store)"
proof -
  note r = ex_reach_help[of "[''flags'']"]
  have "resolve_loop (ex_scan0\<lparr>specialCmd := ''help''\<rparr>) [''flags'']
          = (Done [], ex_scan0\<lparr>specialCmd := ''flags''\<rparr>)"
    by (simp add: ex_step_flags)
  with resolve_loop_reaches[OF r] have
    "resolve_loop ex_scan0 [''help'', ''flags''] = (Done [], ex_scan0\<lparr>specialCmd := ''flags''\<rparr>)"
    by simp
  then have "resolve ex_CommandLine ex_root [''help'', ''flags''] ex_store
       = (Done [], [ex_root_entry], ''flags'', ex_store)"
    by (simp add: resolve_def ex_start_scan ex_scan0_def)
  moreover have "specialCmd ex_scan0 = []" by (simp add: ex_scan0_def)
  ultimately show ?thesis using ex_start_scan r by blast
qed

text \<open>
  Claim C4, as amended. During a pass the marker is empty or one of \<open>help\<close>,
  \<open>flags\<close>, \<open>commands\<close>, at every configuration the scan reaches and in the result. It
  is assigned by every reserved name that is scanned at top level (path of length one,
  some command defined, none of that name) and by every \<open>-help\<close> or \<open>-h\<close> that no node
  of the path declares, whatever it held before; every other round leaves it as it is
  (\<open>marker_assigned\<close> names the rounds that assign). So a later assignment overwrites
  an earlier one, and the marker of the result is the one assigned last
  (\<open>last_assigned\<close>), or empty when no round assigns.
\<close>

theorem marker_is_overwritten:
  assumes "start_scan CommandLine gc sto = Some st0"
      and "scan_reaches st0 args st (s # rest)"
  shows "specialCmd st \<in> set ([] # specialCmds)
         \<and> fst (snd (snd (resolve CommandLine gc args sto))) \<in> set ([] # specialCmds)
         \<and> (length (cmdDataMap st) \<noteq> 0 \<and> map_of (cmdDataMap st) s = None
              \<and> length (cmdpath st) = 1 \<and> s \<in> set specialCmds \<longrightarrow>
            resolve_step st s rest = (Continue 0, st\<lparr>specialCmd := s\<rparr>)
            \<and> scan_reaches st0 args (st\<lparr>specialCmd := s\<rparr>) rest)
         \<and> (flag_token s \<and> fst (split_flag (flag_body s)) \<in> set [''help'', ''h'']
              \<and> lookup (cmdpath st) (fst (split_flag (flag_body s))) = None \<longrightarrow>
            resolve_step st s rest = (Continue 0, st\<lparr>specialCmd := ''help''\<rparr>)
            \<and> scan_reaches st0 args (st\<lparr>specialCmd := ''help''\<rparr>) rest)
         \<and> (marker_assigned st s = None \<longrightarrow>
              specialCmd (snd (resolve_step st s rest)) = specialCmd st)
         \<and> specialCmd (snd (resolve_step st s rest))
             = (case marker_assigned st s of Some m \<Rightarrow> m | None \<Rightarrow> specialCmd st)
         \<and> fst (snd (snd (resolve CommandLine gc args sto)))
             = (case last_assigned st0 args of Some m \<Rightarrow> m | None \<Rightarrow> [])"
proof -
  from start_scan_specialCmd[OF assms(1)] have m0: "specialCmd st0 \<in> set ([] # specialCmds)"
    by simp
  from scan_reaches_specialCmd[OF assms(2) m0] have a: "specialCmd st \<in> set ([] # specialCmds)" .
  obtain r st' where loop: "resolve_loop st0 args = (r, st')" by (cases "resolve_loop st0 args")
  from resolve_loop_specialCmd[OF loop m0] loop assms(1)
  have b: "fst (snd (snd (resolve CommandLine gc args sto))) \<in> set ([] # specialCmds)"
    by (simp add: resolve_def)
  have c: "resolve_step st s rest = (Continue 0, st\<lparr>specialCmd := s\<rparr>)
           \<and> scan_reaches st0 args (st\<lparr>specialCmd := s\<rparr>) rest"
    if h: "length (cmdDataMap st) \<noteq> 0 \<and> map_of (cmdDataMap st) s = None
           \<and> length (cmdpath st) = 1 \<and> s \<in> set specialCmds"
  proof -
    from h reserved_not_flag[of s] have "s \<noteq> ''--''" "hd s \<noteq> CHR ''-''" by simp_all
    with h have step: "resolve_step st s rest = (Continue 0, st\<lparr>specialCmd := s\<rparr>)"
      by (simp add: resolve_step_def step_subcmd_def)
    from scan_reaches_step[OF assms(2) step] step show ?thesis by simp
  qed
  have d: "resolve_step st s rest = (Continue 0, st\<lparr>specialCmd := ''help''\<rparr>)
           \<and> scan_reaches st0 args (st\<lparr>specialCmd := ''help''\<rparr>) rest"
    if h: "flag_token s \<and> fst (split_flag (flag_body s)) \<in> set [''help'', ''h'']
           \<and> lookup (cmdpath st) (fst (split_flag (flag_body s))) = None"
  proof -
    obtain n hv v where sp: "split_flag (flag_body s) = (n, hv, v)"
      by (cases "split_flag (flag_body s)")
    with h have tok: "flag_token s" and n: "n = ''help'' \<or> n = ''h''"
      and l: "lookup (cmdpath st) n = None" by simp_all
    from resolve_step_not_found[OF tok sp l, of rest] n
    have step: "resolve_step st s rest = (Continue 0, st\<lparr>specialCmd := ''help''\<rparr>)" by simp
    from scan_reaches_step[OF assms(2) step] step show ?thesis by simp
  qed
  note e = resolve_step_marker[of st s rest]
  then have f: "marker_assigned st s = None \<longrightarrow>
                  specialCmd (snd (resolve_step st s rest)) = specialCmd st"
    by simp
  from resolve_loop_last_assigned[of st0 args] loop assms(1) start_scan_specialCmd[OF assms(1)]
  have g: "fst (snd (snd (resolve CommandLine gc args sto)))
             = (case last_assigned st0 args of Some m \<Rightarrow> m | None \<Rightarrow> [])"
    by (simp add: resolve_def split: option.splits)
  from a b c d e f g show ?thesis by blast
qed

theorem marker_is_overwritten_witness:
  "start_scan ex_CommandLine ex_root ex_store = Some ex_scan0
   \<and> scan_reaches ex_scan0 [''help'', ''flags''] (ex_scan0\<lparr>specialCmd := ''help''\<rparr>) [''flags'']
   \<and> specialCmd (ex_scan0\<lparr>specialCmd := ''help''\<rparr>) \<in> set ([] # specialCmds)
   \<and> scan_reaches ex_scan0 [''help'', ''flags''] (ex_scan0\<lparr>specialCmd := ''flags''\<rparr>) []
   \<and> scan_reaches ex_scan0 [''flags'', ''--h''] (ex_scan0\<lparr>specialCmd := ''flags''\<rparr>) [''--h'']
   \<and> flag_token ''--h'' \<and> fst (split_flag (flag_body ''--h'')) = ''h''
   \<and> lookup (cmdpath (ex_scan0\<lparr>specialCmd := ''flags''\<rparr>)) ''h'' = None
   \<and> scan_reaches ex_scan0 [''flags'', ''--h''] (ex_scan0\<lparr>specialCmd := ''help''\<rparr>) []
   \<and> scan_reaches ex_scan0 [''help'', ''server''] (ex_scan0\<lparr>specialCmd := ''help''\<rparr>) [''server'']
   \<and> marker_assigned (ex_scan0\<lparr>specialCmd := ''help''\<rparr>) ''server'' = None
   \<and> specialCmd (snd (resolve_step (ex_scan0\<lparr>specialCmd := ''help''\<rparr>) ''server'' [])) = ''help''
   \<and> last_assigned ex_scan0 [''help'', ''flags''] = Some ''flags''
   \<and> fst (snd (snd (resolve ex_CommandLine ex_root [''help'', ''flags''] ex_store))) = ''flags''"
proof -
  note r = ex_reach_help[of "[''flags'']"]
  note inst = marker_is_overwritten[OF ex_start_scan r]
  have pre: "length (cmdDataMap (ex_scan0\<lparr>specialCmd := ''help''\<rparr>)) \<noteq> 0
             \<and> map_of (cmdDataMap (ex_scan0\<lparr>specialCmd := ''help''\<rparr>)) ''flags'' = None
             \<and> length (cmdpath (ex_scan0\<lparr>specialCmd := ''help''\<rparr>)) = 1
             \<and> ''flags'' \<in> set specialCmds"
    by (simp add: ex_scan0_def specialCmds_def)
  from inst have a: "specialCmd (ex_scan0\<lparr>specialCmd := ''help''\<rparr>) \<in> set ([] # specialCmds)"
    by blast
  from inst pre have b:
    "scan_reaches ex_scan0 [''help'', ''flags''] (ex_scan0\<lparr>specialCmd := ''flags''\<rparr>) []"
    by simp
  note r2 = ex_reach_flags[of "[''--h'']"]
  have tok: "flag_token ''--h''" "fst (split_flag (flag_body ''--h'')) = ''h''"
    by (simp_all add: flag_token_def bad_flag_syntax_def flag_body_def split_flag_def)
  note l = ex_lookup_h_root[of "''flags''"]
  from marker_is_overwritten[OF ex_start_scan r2] tok l have c:
    "scan_reaches ex_scan0 [''flags'', ''--h''] (ex_scan0\<lparr>specialCmd := ''help''\<rparr>) []"
    by simp
  note r3 = ex_reach_help[of "[''server'']"]
  note m3 = ex_marker_assigned(3)
  from marker_is_overwritten[OF ex_start_scan r3] m3 have d:
    "specialCmd (snd (resolve_step (ex_scan0\<lparr>specialCmd := ''help''\<rparr>) ''server'' [])) = ''help''"
    by simp
  from inst have
    "fst (snd (snd (resolve ex_CommandLine ex_root [''help'', ''flags''] ex_store)))
       = (case last_assigned ex_scan0 [''help'', ''flags''] of Some m \<Rightarrow> m | None \<Rightarrow> [])"
    by blast
  then have e: "fst (snd (snd (resolve ex_CommandLine ex_root [''help'', ''flags''] ex_store)))
                  = ''flags''"
    unfolding ex_last_assigned by simp
  from ex_start_scan r a b r2 tok l c r3 m3 d ex_last_assigned e show ?thesis by blast
qed

subsection \<open>C5: the order of the words of the usage line\<close>




subsection \<open>C6: Run rejects a nil command list, not an empty one\<close>



subsection \<open>C7: a flag that is not boolean takes the next token as its value\<close>



subsection \<open>C8: a boolean flag takes no look-ahead\<close>



subsection \<open>C9: a failed resolution calls nothing and prints nothing\<close>

text \<open>
  Claim C9. When the resolution of a token list fails with an error \<open>e\<close>: \<open>e\<close> is one
  of the errors of the scan (not \<open>os.ErrInvalid\<close>); the scan reached a token whose round
  returned \<open>e\<close>, and the state that \<open>resolve\<close> leaves is the state of that round, so no
  token after it was read; and \<open>run\<close> returns \<open>e\<close> to its caller: it calls no function
  of a leaf and prints no help. On \<open>server restart\<close>, where \<open>restart\<close> is no child of
  \<open>server\<close>, the error is "command not defined: restart" (the witness).
\<close>

theorem resolution_error_aborts:
  assumes "fst (resolve CommandLine gc args sto) = Failed e"
  shows "fst (run CommandLine gc args sto) = Error e
         \<and> e \<noteq> ErrInvalid
         \<and> (\<exists>st0 st s rest st'.
               start_scan CommandLine gc sto = Some st0
               \<and> scan_reaches st0 args st (s # rest)
               \<and> resolve_step st s rest = (Return e, st')
               \<and> resolve CommandLine gc args sto
                   = (Failed e, cmdpath st', specialCmd st', store st')
               \<and> run CommandLine gc args sto = (Error e, store st'))"
proof -
  from assms obtain st0 where st0: "start_scan CommandLine gc sto = Some st0"
    by (cases "start_scan CommandLine gc sto") (simp_all add: resolve_def)
  obtain r st' where loop: "resolve_loop st0 args = (r, st')"
    by (cases "resolve_loop st0 args")
  with st0 have res: "resolve CommandLine gc args sto = (r, cmdpath st', specialCmd st', store st')"
    by (simp add: resolve_def)
  with assms have r: "r = Failed e" by simp
  from resolve_loop_Failed[OF loop[unfolded r]] obtain st s rest where
    reach: "scan_reaches st0 args st (s # rest)" and step: "resolve_step st s rest = (Return e, st')"
    by blast
  from res r have run: "run CommandLine gc args sto = (Error e, store st')"
    by (simp add: run_def)
  from resolve_step_not_ErrInvalid[OF step] have ne: "e \<noteq> ErrInvalid" by simp
  from st0 reach step res r run have
    "\<exists>st0 st s rest st'.
       start_scan CommandLine gc sto = Some st0
       \<and> scan_reaches st0 args st (s # rest)
       \<and> resolve_step st s rest = (Return e, st')
       \<and> resolve CommandLine gc args sto = (Failed e, cmdpath st', specialCmd st', store st')
       \<and> run CommandLine gc args sto = (Error e, store st')"
    by blast
  with run ne show ?thesis by simp
qed

theorem resolution_error_aborts_witness:
  "fst (resolve ex_CommandLine ex_root [''server'', ''restart''] ex_store)
     = Failed (CommandNotDefined ''restart'')
   \<and> fst (run ex_CommandLine ex_root [''server'', ''restart''] ex_store)
       = Error (CommandNotDefined ''restart'')
   \<and> CommandNotDefined ''restart'' \<noteq> ErrInvalid"
proof -
  have f: "fst (resolve ex_CommandLine ex_root [''server'', ''restart''] ex_store)
             = Failed (CommandNotDefined ''restart'')"
    by (simp add: ex_resolve_restart)
  from resolution_error_aborts[OF f] f show ?thesis by blast
qed

subsection \<open>C10: Run panics on an empty token sequence\<close>

text \<open>
  Claim C10. With a command list that is not nil, \<open>Run\<close> on an empty token sequence
  panics at \<open>&args[0]\<close>: it returns no error and prints no help.
\<close>

theorem Run_no_args_panics:
  "Run p (Some cs) [] same_base sto = (Panics, sto)"
  by (simp add: Run_def)

end
